theory Spec2Isabelle
  imports Main
begin

section \<open>Python strings\<close>

text \<open>
  A Python \<open>str\<close> is a sequence of Unicode code points, and \<open>len\<close> counts code points.
  A string is therefore a list of code points; \<open>ustr\<close> reads an ASCII literal.
\<close>

type_synonym codepoint = nat
type_synonym ustring = "codepoint list"

definition ustr :: "string \<Rightarrow> ustring" where
  "ustr s = map of_char s"

definition nl :: codepoint where "nl = 0xA"
definition backtick :: codepoint where "backtick = 0x60"
definition zwsp :: codepoint where "zwsp = 0x200B"
definition rlo :: codepoint where "rlo = 0x202E"

text \<open>
  The characters for which \<open>str.isspace\<close> holds; they are also the characters that the
  class \<open>\s\<close> of the \<open>re\<close> module matches in a \<open>str\<close> pattern.
\<close>

definition isspace :: "codepoint \<Rightarrow> bool" where
  "isspace c = (c \<in> set [0x9, 0xA, 0xB, 0xC, 0xD, 0x1C, 0x1D, 0x1E, 0x1F, 0x20, 0x85, 0xA0,
      0x1680, 0x2000, 0x2001, 0x2002, 0x2003, 0x2004, 0x2005, 0x2006, 0x2007, 0x2008, 0x2009,
      0x200A, 0x2028, 0x2029, 0x202F, 0x205F, 0x3000])"

text \<open>\<open>s.rstrip()\<close>, \<open>s.lstrip()\<close> and \<open>s.strip()\<close> without argument.\<close>

definition str_rstrip :: "ustring \<Rightarrow> ustring" where
  "str_rstrip s = rev (dropWhile isspace (rev s))"

definition str_lstrip :: "ustring \<Rightarrow> ustring" where
  "str_lstrip s = dropWhile isspace s"

definition str_strip :: "ustring \<Rightarrow> ustring" where
  "str_strip s = str_rstrip (str_lstrip s)"

text \<open>\<open>s.rstrip(chars)\<close>: the trailing characters that occur in \<open>chars\<close> are removed.\<close>

definition str_rstrip_chars :: "ustring \<Rightarrow> ustring \<Rightarrow> ustring" where
  "str_rstrip_chars chars s = rev (dropWhile (\<lambda>c. c \<in> set chars) (rev s))"

text \<open>\<open>s.startswith(pre)\<close> and \<open>sub in s\<close>.\<close>

definition startswith :: "ustring \<Rightarrow> ustring \<Rightarrow> bool" where
  "startswith s pre = (take (length pre) s = pre)"

fun str_contains :: "ustring \<Rightarrow> ustring \<Rightarrow> bool" where
  "str_contains sub [] = (sub = [])"
| "str_contains sub (c # cs) = (startswith (c # cs) sub \<or> str_contains sub cs)"

text \<open>
  \<open>s.replace(old, new)\<close>: the occurrences of \<open>old\<close> are replaced from left to right,
  without overlap. With an empty \<open>old\<close>, Python puts \<open>new\<close> before every character and
  at the end.
\<close>

function str_replace :: "ustring \<Rightarrow> ustring \<Rightarrow> ustring \<Rightarrow> ustring" where
  "str_replace old new [] = (if old = [] then new else [])"
| "str_replace old new (c # cs) =
     (if old = [] then new @ c # str_replace old new cs
      else if startswith (c # cs) old
        then new @ str_replace old new (drop (length old) (c # cs))
        else c # str_replace old new cs)"
  by pat_completeness auto
termination
  by (relation "measure (\<lambda>(old, new, s). length s)") auto

text \<open>\<open>s.split(sep)\<close> and \<open>s.rsplit(sep, 1)\<close> for a separator of one character, and
  \<open>sep.join(xs)\<close>.\<close>

fun str_split :: "codepoint \<Rightarrow> ustring \<Rightarrow> ustring list" where
  "str_split sep [] = [[]]"
| "str_split sep (c # cs) =
     (if c = sep then [] # str_split sep cs
      else (case str_split sep cs of
              [] \<Rightarrow> [[c]]
            | l # ls \<Rightarrow> (c # l) # ls))"

definition str_rsplit1 :: "codepoint \<Rightarrow> ustring \<Rightarrow> ustring list" where
  "str_rsplit1 sep s =
     (if sep \<in> set s
      then [rev (tl (dropWhile (\<lambda>c. c \<noteq> sep) (rev s))), rev (takeWhile (\<lambda>c. c \<noteq> sep) (rev s))]
      else [s])"

fun str_join :: "ustring \<Rightarrow> ustring list \<Rightarrow> ustring" where
  "str_join sep [] = []"
| "str_join sep [x] = x"
| "str_join sep (x # y # ys) = x @ sep @ str_join sep (y # ys)"

text \<open>
  \<open>s.split(maxsplit=1)\<close>: leading white space is skipped, the first word is cut off, and
  the rest, from its first character that is not white space, is kept as it is.
\<close>

definition str_split_ws1 :: "ustring \<Rightarrow> ustring list" where
  "str_split_ws1 s =
     (let s1 = dropWhile isspace s
      in if s1 = [] then []
         else (let w = takeWhile (\<lambda>c. \<not> isspace c) s1;
                   r = dropWhile isspace (dropWhile (\<lambda>c. \<not> isspace c) s1)
               in if r = [] then [w] else [w, r]))"

text \<open>Decimal numerals: \<open>str(i)\<close> for an integer, and the format \<open>{i:03d}\<close>.\<close>

fun digits :: "nat \<Rightarrow> ustring" where
  "digits n = (if n < 10 then [0x30 + n] else digits (n div 10) @ [0x30 + n mod 10])"

declare digits.simps [simp del]

definition str_of_int :: "int \<Rightarrow> ustring" where
  "str_of_int i = (if i < 0 then 0x2D # digits (nat (- i)) else digits (nat i))"

definition format_03d :: "nat \<Rightarrow> ustring" where
  "format_03d i = replicate (3 - length (digits i)) 0x30 @ digits i"

section \<open>Regular expressions\<close>

text \<open>
  The patterns of the module use literals, character classes, sequence, alternation,
  greedy and lazy repetition, named groups, a back-reference, a conditional on a group,
  and the anchors \<open>^\<close> and \<open>$\<close>. \<open>r+\<close> is \<open>Plus r\<close>, \<open>r?\<close> is \<open>Opt r\<close> (the greedy
  option tries \<open>r\<close> first), and \<open>r{3,}\<close> is written out.
\<close>

datatype rx =
    Lit codepoint
  | Cls "codepoint \<Rightarrow> bool"
  | Eps
  | Bol
  | Eol
  | Seq rx rx
  | Alt rx rx
  | Star bool rx
  | Group string rx
  | Backref string
  | IfGroup string rx

abbreviation Plus :: "rx \<Rightarrow> rx" where
  "Plus r \<equiv> Seq r (Star True r)"

abbreviation Opt :: "rx \<Rightarrow> rx" where
  "Opt r \<equiv> Alt r Eps"

fun Lits :: "ustring \<Rightarrow> rx" where
  "Lits [] = Eps"
| "Lits (c # cs) = Seq (Lit c) (Lits cs)"

text \<open>
  The matcher is the backtracking search of the \<open>re\<close> module, as a list of successes: from
  a state (the text still to read, and the groups found so far) it returns every way to
  match, in the order in which backtracking tries them, so that the head of the list is
  the match that \<open>re\<close> reports. \<open>Star True\<close> is greedy (one more round is tried before
  stopping), \<open>Star False\<close> is lazy. A round of a repetition has to read at least one
  character; every repeated pattern of this module does. \<open>subj\<close> is the whole subject
  string, which \<open>^\<close> needs; \<open>$\<close> holds at the end and before a final newline.
\<close>

type_synonym groups = "(string \<times> ustring) list"
type_synonym mstate = "ustring \<times> groups"

function rmatch :: "ustring \<Rightarrow> rx \<Rightarrow> mstate \<Rightarrow> mstate list" where
  "rmatch subj (Lit c) (s, g) =
     (case s of [] \<Rightarrow> [] | x # xs \<Rightarrow> if x = c then [(xs, g)] else [])"
| "rmatch subj (Cls P) (s, g) =
     (case s of [] \<Rightarrow> [] | x # xs \<Rightarrow> if P x then [(xs, g)] else [])"
| "rmatch subj Eps (s, g) = [(s, g)]"
| "rmatch subj Bol (s, g) = (if length s = length subj then [(s, g)] else [])"
| "rmatch subj Eol (s, g) = (if s = [] \<or> s = [nl] then [(s, g)] else [])"
| "rmatch subj (Seq a b) (s, g) = concat (map (rmatch subj b) (rmatch subj a (s, g)))"
| "rmatch subj (Alt a b) (s, g) = rmatch subj a (s, g) @ rmatch subj b (s, g)"
| "rmatch subj (Star greedy r) (s, g) =
     (let more = concat (map (rmatch subj (Star greedy r))
                   (filter (\<lambda>st. length (fst st) < length s) (rmatch subj r (s, g))))
      in if greedy then more @ [(s, g)] else (s, g) # more)"
| "rmatch subj (Group name r) (s, g) =
     map (\<lambda>(s', g'). (s', (name, take (length s - length s') s) # g')) (rmatch subj r (s, g))"
| "rmatch subj (Backref name) (s, g) =
     (case map_of g name of
        None \<Rightarrow> []
      | Some t \<Rightarrow> if startswith s t then [(drop (length t) s, g)] else [])"
| "rmatch subj (IfGroup name r) (s, g) =
     (case map_of g name of None \<Rightarrow> [(s, g)] | Some t \<Rightarrow> rmatch subj r (s, g))"
  by pat_completeness auto
termination
  by (relation "measures [\<lambda>(subj, r, st). size r, \<lambda>(subj, r, st). length (fst st)]") auto

declare rmatch.simps [simp del]

text \<open>
  A match object: the text matched and the groups. \<open>group\<close> is \<open>None\<close> for a group that
  took no part in the match.
\<close>

type_synonym rmatch = "ustring \<times> groups"

definition group :: "rmatch \<Rightarrow> string \<Rightarrow> ustring option" where
  "group m name = map_of (snd m) name"

text \<open>\<open>pattern.fullmatch(subj)\<close>: the first way to match that reads the whole string.\<close>

definition re_fullmatch :: "rx \<Rightarrow> ustring \<Rightarrow> rmatch option" where
  "re_fullmatch r subj =
     (case List.find (\<lambda>st. fst st = []) (rmatch subj r (subj, [])) of
        None \<Rightarrow> None
      | Some (s', g) \<Rightarrow> Some (subj, g))"

text \<open>
  \<open>pattern.finditer(subj)\<close>, from the text \<open>s\<close> still to scan: the matches from left to
  right, without overlap. After a match the scan goes on where it ended. (After an empty
  match the scan moves one character on; no pattern of this module matches the empty
  string.)
\<close>

function re_finditer :: "rx \<Rightarrow> ustring \<Rightarrow> ustring \<Rightarrow> rmatch list" where
  "re_finditer r subj s =
     (case rmatch subj r (s, []) of
        [] \<Rightarrow> (case s of [] \<Rightarrow> [] | c # cs \<Rightarrow> re_finditer r subj cs)
      | st # sts \<Rightarrow>
          (take (length s - length (fst st)) s, snd st) #
          (if length (fst st) < length s then re_finditer r subj (fst st)
           else (case s of [] \<Rightarrow> [] | c # cs \<Rightarrow> re_finditer r subj cs)))"
  by pat_completeness auto
termination
  by (relation "measure (\<lambda>(r, subj, s). length s)") auto

declare re_finditer.simps [simp del]

text \<open>\<open>pattern.findall(subj)\<close> for a pattern without groups: the texts matched.\<close>

definition re_findall :: "rx \<Rightarrow> ustring \<Rightarrow> ustring list" where
  "re_findall r subj = map fst (re_finditer r subj subj)"

subsection \<open>The patterns of the module\<close>

definition escape_char :: "codepoint \<Rightarrow> bool" where
  "escape_char c = (c = backtick \<or> c = rlo \<or> c = zwsp)"

definition ESCAPE_REGEX :: rx where
  "ESCAPE_REGEX = Seq (Cls escape_char) (Seq (Cls escape_char) (Plus (Cls escape_char)))"

definition space_or_tab :: "codepoint \<Rightarrow> bool" where
  "space_or_tab c = (c = 0x20 \<or> c = 0x9)"

text \<open>
  \<open>[a-z]\<close> under \<open>re.IGNORECASE\<close>: the 52 ASCII letters and the four letters that case
  folding sends to one of them (U+0130, U+0131, U+017F, U+212A).
\<close>

definition az_ignorecase :: "codepoint \<Rightarrow> bool" where
  "az_ignorecase c = ((0x61 \<le> c \<and> c \<le> 0x7A) \<or> (0x41 \<le> c \<and> c \<le> 0x5A)
     \<or> c = 0x130 \<or> c = 0x131 \<or> c = 0x17F \<or> c = 0x212A)"

definition any_char :: "codepoint \<Rightarrow> bool" where
  "any_char c = True"

text \<open>\<open>(?:[ \t]*\n)*\<close>, which opens both code patterns.\<close>

definition BLANK_LINES :: rx where
  "BLANK_LINES = Star True (Seq (Star True (Cls space_or_tab)) (Lit nl))"

text \<open>
  \<open>re.DOTALL\<close> makes \<open>.\<close> the class of all characters. \<open>re.IGNORECASE\<close> changes only
  the class \<open>[a-z]\<close>: the literals are back-ticks and newlines, and the back-reference
  repeats a group that holds back-ticks only.
\<close>

definition FORMATTED_CODE_REGEX :: rx where
  "FORMATTED_CODE_REGEX =
     Seq (Group ''delim''
            (Alt (Group ''block'' (Seq (Lit backtick) (Seq (Lit backtick) (Lit backtick))))
                 (Seq (Lit backtick) (Opt (Lit backtick)))))
    (Seq (IfGroup ''block'' (Opt (Seq (Group ''lang'' (Plus (Cls az_ignorecase))) (Lit nl))))
    (Seq BLANK_LINES
    (Seq (Group ''code'' (Star False (Cls any_char)))
    (Seq (Star True (Cls isspace))
         (Backref ''delim'')))))"

definition RAW_CODE_REGEX :: rx where
  "RAW_CODE_REGEX =
     Seq Bol
    (Seq BLANK_LINES
    (Seq (Group ''code'' (Star False (Cls any_char)))
    (Seq (Star True (Cls isspace))
         Eol)))"

text \<open>
  \<open>\d\<close> in a \<open>str\<close> pattern is a decimal digit of any script (category Nd), which come in
  runs of ten; the list holds the zero of each run in Unicode 13.
\<close>

definition digit_zeros :: "codepoint list" where
  "digit_zeros = [48, 1632, 1776, 1984, 2406, 2534, 2662, 2790, 2918, 3046, 3174, 3302, 3430,
     3558, 3664, 3792, 3872, 4160, 4240, 6112, 6160, 6470, 6608, 6784, 6800, 6992, 7088, 7232,
     7248, 42528, 43216, 43264, 43472, 43504, 43600, 44016, 65296, 66720, 68912, 69734, 69872,
     69942, 70096, 70384, 70736, 70864, 71248, 71360, 71472, 71904, 72016, 72784, 73040, 73120,
     92768, 93008, 120782, 120792, 120802, 120812, 120822, 123200, 123632, 125264, 130032]"

definition isdigit :: "codepoint \<Rightarrow> bool" where
  "isdigit c = list_ex (\<lambda>z. z \<le> c \<and> c < z + 10) digit_zeros"

definition TIMEIT_OUTPUT_REGEX :: rx where
  "TIMEIT_OUTPUT_REGEX =
     Seq (Plus (Cls isdigit))
    (Seq (Lits (ustr '' loops, best of ''))
    (Seq (Plus (Cls isdigit))
    (Seq (Lits (ustr '': ''))
    (Seq (Cls isdigit)
    (Seq (Opt (Seq (Lit 0x2E) (Seq (Cls isdigit) (Opt (Cls isdigit)))))
    (Seq (Lit 0x20)
    (Seq (Opt (Cls (\<lambda>c. c \<in> set (ustr ''mnu''))))
         (Lits (ustr ''sec per loop'')))))))))"

definition MAX_PASTE_LEN :: nat where
  "MAX_PASTE_LEN = 10000"

definition SIGKILL :: int where
  "SIGKILL = 9"

section \<open>The paste service\<close>

text \<open>
  The paste service is the world outside: \<open>paste_reply\<close> is what it answers to a text (a
  URL, or \<open>None\<close> when the upload fails), and \<open>paste_received\<close> the texts sent to it.
\<close>

record paste_service =
  paste_reply :: "ustring \<Rightarrow> ustring option"
  paste_received :: "ustring list"

text \<open>
  Modelled from the spec: \<open>bot.utils.send_to_paste_service\<close> is not among the sources.
  Section 6 gives its interface: \<open>upload(text, extension) -> url string | null\<close>.
\<close>

definition send_to_paste_service :: "ustring \<Rightarrow> paste_service \<Rightarrow> ustring option \<times> paste_service" where
  "send_to_paste_service contents ps =
     (paste_reply ps contents, ps\<lparr>paste_received := paste_received ps @ [contents]\<rparr>)"

definition upload_output :: "ustring \<Rightarrow> paste_service \<Rightarrow> ustring option \<times> paste_service" where
  "upload_output output ps =
     (if length output > MAX_PASTE_LEN then (Some (ustr ''too long to upload''), ps)
      else send_to_paste_service output ps)"

section \<open>Formatting the output\<close>

definition escape_warning :: ustring where
  "escape_warning = ustr ''Code block escape attempt detected; will not output result''"

text \<open>The mention-neutralising replacements of \<open>format_output\<close>.\<close>

definition neutralise :: "ustring \<Rightarrow> ustring" where
  "neutralise output =
     (let output = (if str_contains (ustr ''<@'') output
                    then str_replace (ustr ''<@'') (ustr ''<@'' @ [zwsp]) output else output)
      in if str_contains (ustr ''<!@'') output
         then str_replace (ustr ''<!@'') (ustr ''<!@'' @ [zwsp]) output else output)"

text \<open>The numbering of the lines: \<open>f"{i:03d} | {line}"\<close> over \<open>enumerate(..., 1)\<close>, cut to
  eleven lines.\<close>

definition number_lines :: "ustring \<Rightarrow> ustring" where
  "number_lines output =
     str_join [nl] (take 11
       (map (\<lambda>(i, line). format_03d i @ ustr '' | '' @ line) (enumerate 1 (str_split nl output))))"

type_synonym format_result = "(ustring \<times> ustring option) \<times> paste_service"

definition format_output :: "ustring \<Rightarrow> paste_service \<Rightarrow> format_result" where
  "format_output stdout_text ps =
     (let original_output = str_rstrip_chars [nl] stdout_text;
          output = neutralise original_output
      in if re_findall ESCAPE_REGEX output \<noteq> [] then
           (let (paste_link, ps') = upload_output original_output ps
            in ((escape_warning, paste_link), ps'))
         else
           (let lines = count_list output nl;
                output = (if lines > 0 then number_lines output else output);
                (truncated, output) =
                  (if lines > 10 then
                     (True,
                      if length output \<ge> 1000
                      then take 1000 output @ [nl] @ ustr ''... (truncated - too long, too many lines)''
                      else output @ [nl] @ ustr ''... (truncated - too many lines)'')
                   else if length output \<ge> 1000 then
                     (True, take 1000 output @ [nl] @ ustr ''... (truncated - too long)'')
                   else (False, output));
                (paste_link, ps') =
                  (if truncated then upload_output original_output ps else (None, ps));
                output = (if output = [] then ustr ''[No output]'' else output)
            in ((output, paste_link), ps')))"

definition format_timeit_output :: "ustring \<Rightarrow> paste_service \<Rightarrow> format_result" where
  "format_timeit_output output ps =
     (case str_rsplit1 nl (str_rstrip_chars [nl] output) of
        [first, last_line] \<Rightarrow>
          if re_fullmatch TIMEIT_OUTPUT_REGEX last_line \<noteq> None then ((last_line, None), ps)
          else format_output output ps
      | _ \<Rightarrow> format_output output ps)"

section \<open>Extracting the code\<close>

text \<open>
  \<open>textwrap.dedent\<close>, as the standard library of Python 3.9 has it. Lines that hold only
  spaces and tabs become empty; the margin is the longest run of spaces and tabs that opens
  every other non-empty line; the margin is removed from every line that starts with it.
\<close>

definition common_prefix :: "ustring \<Rightarrow> ustring \<Rightarrow> ustring" where
  "common_prefix a b = map fst (takeWhile (\<lambda>(x, y). x = y) (zip a b))"

fun margin_step :: "ustring option \<Rightarrow> ustring \<Rightarrow> ustring option" where
  "margin_step None indent = Some indent"
| "margin_step (Some margin) indent =
     Some (if startswith indent margin then margin
           else if startswith margin indent then indent
           else common_prefix margin indent)"

definition whitespace_only_sub :: "ustring list \<Rightarrow> ustring list" where
  "whitespace_only_sub ls = map (\<lambda>l. if list_all space_or_tab l then [] else l) ls"

definition leading_whitespace :: "ustring list \<Rightarrow> ustring list" where
  "leading_whitespace ls = map (takeWhile space_or_tab) (filter (\<lambda>l. l \<noteq> []) ls)"

definition dedent :: "ustring \<Rightarrow> ustring" where
  "dedent text =
     (let ls = whitespace_only_sub (str_split nl text);
          margin = foldl margin_step None (leading_whitespace ls)
      in case margin of
           None \<Rightarrow> str_join [nl] ls
         | Some m \<Rightarrow>
             if m = [] then str_join [nl] ls
             else str_join [nl] (map (\<lambda>l. if startswith l m then drop (length m) l else l) ls))"

text \<open>The exceptions that the module can meet.\<close>

datatype exn =
    AttributeError
  | TypeError
  | KeyError
  | ClientError
  | HTTPException
  | NotFound

text \<open>
  \<open>prepare_input\<close>. \<open>.group\<close> on the \<open>None\<close> that a failed \<open>fullmatch\<close> returns raises
  \<open>AttributeError\<close>; a group that is \<open>None\<close> makes \<open>join\<close> and \<open>dedent\<close> raise
  \<open>TypeError\<close>. The calls of the logger are left out.
\<close>

definition prepare_input :: "ustring \<Rightarrow> exn + ustring" where
  "prepare_input code =
     (case re_finditer FORMATTED_CODE_REGEX code code of
        [] \<Rightarrow>
          (case re_fullmatch RAW_CODE_REGEX code of
             None \<Rightarrow> Inl AttributeError
           | Some m \<Rightarrow>
               (case group m ''code'' of None \<Rightarrow> Inl TypeError | Some c \<Rightarrow> Inr (dedent c)))
      | m0 # ms \<Rightarrow>
          (let blocks = filter (\<lambda>b. group b ''block'' \<noteq> None \<and> group b ''block'' \<noteq> Some [])
                          (m0 # ms)
           in if length blocks > 1 then
                (case those (map (\<lambda>b. group b ''code'') blocks) of
                   None \<Rightarrow> Inl TypeError
                 | Some cs \<Rightarrow> Inr (dedent (str_join [nl] cs)))
              else
                (let m = (case blocks of [] \<Rightarrow> m0 | b # bs \<Rightarrow> b)
                 in case group m ''code'' of None \<Rightarrow> Inl TypeError | Some c \<Rightarrow> Inr (dedent c))))"

section \<open>Execution results\<close>

text \<open>
  The dictionary returned by \<open>post_eval\<close>: the keys read by the cog are \<open>stdout\<close> and
  \<open>returncode\<close>; a \<open>returncode\<close> of \<open>None\<close> is \<open>None\<close> here.
\<close>

record results =
  stdout :: ustring
  returncode :: "int option"

text \<open>
  \<open>signal_name\<close> stands for \<open>Signals(n).name\<close> of the host, \<open>None\<close> where \<open>Signals(n)\<close>
  raises \<open>ValueError\<close>.
\<close>

definition get_results_message :: "(int \<Rightarrow> ustring option) \<Rightarrow> results \<Rightarrow> ustring \<times> ustring" where
  "get_results_message signal_name res =
     (let msg = ustr ''Your eval job has completed with return code '' @
                  (case returncode res of None \<Rightarrow> ustr ''None'' | Some rc \<Rightarrow> str_of_int rc)
      in case returncode res of
           None \<Rightarrow> (ustr ''Your eval job has failed'', str_strip (stdout res))
         | Some rc \<Rightarrow>
             if rc = 128 + SIGKILL then (ustr ''Your eval job timed out or ran out of memory'', [])
             else if rc = 255 then
               (ustr ''Your eval job has failed'', ustr ''A fatal NsJail error occurred'')
             else (case signal_name (rc - 128) of
                     Some name \<Rightarrow> (msg @ ustr '' ('' @ name @ ustr '')'', [])
                   | None \<Rightarrow> (msg, [])))"

definition get_status_emoji :: "results \<Rightarrow> ustring" where
  "get_status_emoji res =
     (if str_strip (stdout res) = [] then ustr '':warning:''
      else if returncode res = Some 0 then ustr '':white_check_mark:''
      else ustr '':x:'')"

section \<open>The evaluation session\<close>

text \<open>
  What the cog reads of the invocation context, and the constants of \<open>bot.constants\<close>
  that \<open>run_eval\<close> compares with (they are not among the sources, and are parameters).
\<close>

record eval_context =
  author_id :: nat
  author_mention :: ustring
  author_roles :: "nat list"
  channel_id :: nat
  channel_category_id :: "nat option"

record constants =
  roles_helpers :: nat
  categories_help_in_use :: nat
  channels_bot_commands :: nat
  signal_name :: "int \<Rightarrow> ustring option"

text \<open>
  The effects of a session on the world outside, in the order in which they happen. Each
  is logged together with the job registry as it stood at that moment.
\<close>

datatype effect =
    Post_Eval ustring "ustring list option"
  | Send ustring
  | Stats_Incr string
  | Filter_Eval ustring
  | Wait_For_Deletion
  | Wait_For_Edit
  | Add_Reaction
  | Wait_For_Reaction
  | Clear_Reaction
  | Delete_Response

record world =
  jobs :: "nat \<rightharpoonup> nat"
  paste :: paste_service
  effects :: "(effect \<times> (nat \<rightharpoonup> nat)) list"

definition emit :: "effect \<Rightarrow> world \<Rightarrow> world" where
  "emit e w = w\<lparr>effects := effects w @ [(e, jobs w)]\<rparr>"

text \<open>
  What the world does during one round of the loop of \<open>run_eval\<close>: the clock, the answer
  of the sandbox (or the exception that \<open>post_eval\<close> raises), the verdict of the filter
  cog if one is loaded, and during \<open>continue_eval\<close> the edit of the message (\<open>None\<close>: the
  wait times out), the confirming reaction (\<open>False\<close>: the wait times out), whether the
  edited message invokes the command again, and the exceptions that the calls on the
  message raise.
\<close>

record round_env =
  now :: nat
  post_eval_result :: "exn + results"
  filter_cog :: "bool option"
  edit :: "ustring option"
  add_reaction_raises :: "exn option"
  reaction :: bool
  invokes_command :: bool
  clear_reaction_raises :: "exn option"
  delete_raises :: "exn option"

type_synonym format_func = "ustring \<Rightarrow> paste_service \<Rightarrow> format_result"

definition send_eval ::
  "constants \<Rightarrow> round_env \<Rightarrow> eval_context \<Rightarrow> ustring \<Rightarrow> ustring list option \<Rightarrow> format_func \<Rightarrow> world
     \<Rightarrow> (exn + ustring) \<times> world" where
  "send_eval K env ctx code args format_fn w =
     (let w = emit (Post_Eval code args) w
      in case post_eval_result env of
           Inl e \<Rightarrow> (Inl e, w)
         | Inr res \<Rightarrow>
             (let (msg, error) = get_results_message (signal_name K) res;
                  ((output, paste_link), w) =
                    (if error \<noteq> [] then ((error, None), w)
                     else (let (r, ps) = format_fn (stdout res) (paste w)
                           in (r, w\<lparr>paste := ps\<rparr>)));
                  icon = get_status_emoji res;
                  msg = author_mention ctx @ ustr '' '' @ icon @ ustr '' '' @ msg @ ustr ''.''
                        @ [nl, nl] @ ustr ''```'' @ [nl] @ output @ [nl] @ ustr ''```'';
                  msg = (case paste_link of
                           None \<Rightarrow> msg
                         | Some link \<Rightarrow>
                             if link = [] then msg else msg @ [nl] @ ustr ''Full output: '' @ link);
                  w = (if icon = ustr '':x:'' then emit (Stats_Incr ''snekbox.python.fail'') w
                       else emit (Stats_Incr ''snekbox.python.success'') w);
                  (filter_triggered, w) =
                    (case filter_cog env of
                       None \<Rightarrow> (False, w)
                     | Some verdict \<Rightarrow> (verdict, emit (Filter_Eval msg) w));
                  response =
                    (if filter_triggered
                     then ustr ''Attempt to circumvent filter detected. Moderator team has been alerted.''
                     else msg);
                  w = emit (Send response) w;
                  w = emit Wait_For_Deletion w
              in (Inr response, w)))"

text \<open>
  \<open>get_code\<close>: the argument of the command if the edited message invokes it again (\<open>None\<close>
  if there is none), the whole message otherwise.
\<close>

definition get_code :: "round_env \<Rightarrow> ustring \<Rightarrow> ustring option" where
  "get_code env content =
     (if invokes_command env then
        (case str_split_ws1 content of
           [first, rest] \<Rightarrow> Some rest
         | _ \<Rightarrow> None)
      else Some content)"

text \<open>
  \<open>continue_eval\<close>. \<open>NotFound\<close> is suppressed by the outer \<open>with\<close>, and the function then
  returns \<open>None\<close>; deleting the response suppresses \<open>HTTPException\<close>, of which \<open>NotFound\<close>
  is a subclass. \<open>prepare_input\<close> on the \<open>None\<close> of \<open>get_code\<close> raises \<open>TypeError\<close>.
\<close>

definition clear_reaction :: "round_env \<Rightarrow> world \<Rightarrow> exn option \<times> world" where
  "clear_reaction env w = (clear_reaction_raises env, emit Clear_Reaction w)"

definition continue_eval_timeout :: "round_env \<Rightarrow> world \<Rightarrow> (exn + ustring option) \<times> world" where
  "continue_eval_timeout env w =
     (case clear_reaction env w of
        (None, w) \<Rightarrow> (Inr None, w)
      | (Some e, w) \<Rightarrow> if e = NotFound then (Inr None, w) else (Inl e, w))"

definition continue_eval ::
  "round_env \<Rightarrow> eval_context \<Rightarrow> ustring \<Rightarrow> world \<Rightarrow> (exn + ustring option) \<times> world" where
  "continue_eval env ctx response w =
     (let w = emit Wait_For_Edit w
      in case edit env of
           None \<Rightarrow> continue_eval_timeout env w
         | Some new_content \<Rightarrow>
             (let w = emit Add_Reaction w
              in case add_reaction_raises env of
                   Some e \<Rightarrow> if e = NotFound then (Inr None, w) else (Inl e, w)
                 | None \<Rightarrow>
                     (let w = emit Wait_For_Reaction w
                      in if \<not> reaction env then continue_eval_timeout env w
                         else
                           (let code = get_code env new_content
                            in case clear_reaction env w of
                                 (Some e, w) \<Rightarrow> if e = NotFound then (Inr None, w) else (Inl e, w)
                               | (None, w) \<Rightarrow>
                                   (let w = emit Delete_Response w
                                    in case delete_raises env of
                                         Some e \<Rightarrow>
                                           if e = HTTPException \<or> e = NotFound then
                                             (case code of
                                                None \<Rightarrow> (Inl TypeError, w)
                                              | Some c \<Rightarrow>
                                                  (case prepare_input c of
                                                     Inl e' \<Rightarrow> (Inl e', w)
                                                   | Inr c' \<Rightarrow> (Inr (Some c'), w)))
                                           else (Inl e, w)
                                       | None \<Rightarrow>
                                           (case code of
                                              None \<Rightarrow> (Inl TypeError, w)
                                            | Some c \<Rightarrow>
                                                (case prepare_input c of
                                                   Inl e' \<Rightarrow> (Inl e', w)
                                                 | Inr c' \<Rightarrow> (Inr (Some c'), w))))))))"

text \<open>\<open>del self.jobs[user]\<close> raises \<open>KeyError\<close> when the user has no entry.\<close>

definition del_job :: "nat \<Rightarrow> world \<Rightarrow> exn option \<times> world" where
  "del_job user w =
     (case jobs w user of
        None \<Rightarrow> (Some KeyError, w)
      | Some t \<Rightarrow> (None, w\<lparr>jobs := (jobs w)(user := None)\<rparr>))"

text \<open>
  One attempt, lines 340 to 344 of \<open>run_eval\<close>: the entry of the user is written,
  \<open>send_eval\<close> runs, and the \<open>finally\<close> clause deletes the entry on both ways out of
  \<open>send_eval\<close>; an exception of the \<open>finally\<close> clause replaces the one under way.
\<close>

definition attempt ::
  "constants \<Rightarrow> round_env \<Rightarrow> eval_context \<Rightarrow> ustring \<Rightarrow> ustring list option \<Rightarrow> format_func \<Rightarrow> world
     \<Rightarrow> (exn + ustring) \<times> world" where
  "attempt K env ctx code args format_fn w =
     (let w = w\<lparr>jobs := (jobs w)(author_id ctx \<mapsto> now env)\<rparr>;
          (sent, w) = send_eval K env ctx code args format_fn w;
          (raised, w) = del_job (author_id ctx) w
      in case raised of
           Some e \<Rightarrow> (Inl e, w)
         | None \<Rightarrow> (sent, w))"

text \<open>
  The loop of \<open>run_eval\<close>. Each round takes what the world does in it from the head of
  the list; the result is \<open>None\<close> when the list ends before the loop does. An exception
  ends the session with \<open>Inl\<close>.
\<close>

fun eval_loop ::
  "constants \<Rightarrow> round_env list \<Rightarrow> eval_context \<Rightarrow> ustring \<Rightarrow> ustring list option \<Rightarrow> format_func \<Rightarrow> world
     \<Rightarrow> ((exn + unit) \<times> world) option" where
  "eval_loop K [] ctx code args format_fn w = None"
| "eval_loop K (env # envs) ctx code args format_fn w =
     (case attempt K env ctx code args format_fn w of
        (Inl e, w) \<Rightarrow> Some (Inl e, w)
      | (Inr response, w) \<Rightarrow>
          (case continue_eval env ctx response w of
             (Inl e, w) \<Rightarrow> Some (Inl e, w)
           | (Inr None, w) \<Rightarrow> Some (Inr (), w)
           | (Inr (Some code'), w) \<Rightarrow>
               if code' = [] then Some (Inr (), w)
               else eval_loop K envs ctx code' args format_fn w))"

definition job_running_notice :: "eval_context \<Rightarrow> ustring" where
  "job_running_notice ctx = author_mention ctx @
     ustr '' You've already got a job running - please wait for it to finish!''"

text \<open>
  \<open>run_eval\<close>. A key of the registry is \<open>in self.jobs\<close> when the map has a value for it.
\<close>

definition run_eval ::
  "constants \<Rightarrow> round_env list \<Rightarrow> eval_context \<Rightarrow> ustring \<Rightarrow> format_func \<Rightarrow> ustring list option \<Rightarrow> world
     \<Rightarrow> ((exn + unit) \<times> world) option" where
  "run_eval K envs ctx code format_fn args w =
     (if jobs w (author_id ctx) \<noteq> None then
        Some (Inr (), emit (Send (job_running_notice ctx)) w)
      else
        (let w = (if roles_helpers K \<in> set (author_roles ctx)
                  then emit (Stats_Incr ''snekbox_usages.roles.helpers'') w
                  else emit (Stats_Incr ''snekbox_usages.roles.developers'') w);
             w = (if channel_category_id ctx = Some (categories_help_in_use K)
                  then emit (Stats_Incr ''snekbox_usages.channels.help'') w
                  else if channel_id ctx = channels_bot_commands K
                  then emit (Stats_Incr ''snekbox_usages.channels.bot_commands'') w
                  else emit (Stats_Incr ''snekbox_usages.channels.topical'') w)
         in eval_loop K envs ctx code args format_fn w))"

text \<open>The execution requests among the effects, and the effects of \<open>continue_eval\<close>.\<close>

fun is_request :: "effect \<Rightarrow> bool" where
  "is_request (Post_Eval code args) = True"
| "is_request e = False"

definition requests :: "world \<Rightarrow> (effect \<times> (nat \<rightharpoonup> nat)) list" where
  "requests w = filter (\<lambda>x. is_request (fst x)) (effects w)"

definition is_reeval_wait :: "effect \<Rightarrow> bool" where
  "is_reeval_wait e = (e \<in> set [Wait_For_Edit, Add_Reaction, Wait_For_Reaction, Clear_Reaction,
     Delete_Response])"

text \<open>
  \<open>grows P w w'\<close>: from \<open>w\<close> to \<open>w'\<close> the registry is unchanged, and the effects
  added satisfy \<open>P\<close> and saw the registry of \<open>w\<close>. \<open>settled u new\<close>: among the effects
  \<open>new\<close>, those of \<open>continue_eval\<close> saw no entry of user \<open>u\<close>, and the execution requests
  saw one.
\<close>

definition grows :: "(effect \<Rightarrow> bool) \<Rightarrow> world \<Rightarrow> world \<Rightarrow> bool" where
  "grows P w w' \<longleftrightarrow> jobs w' = jobs w \<and>
     (\<exists>new. effects w' = effects w @ new \<and> (\<forall>x\<in>set new. snd x = jobs w \<and> P (fst x)))"

definition settled :: "nat \<Rightarrow> (effect \<times> (nat \<rightharpoonup> nat)) list \<Rightarrow> bool" where
  "settled u new \<longleftrightarrow> (\<forall>x\<in>set new. (is_reeval_wait (fst x) \<longrightarrow> snd x u = None)
      \<and> (is_request (fst x) \<longrightarrow> snd x u \<noteq> None))"

text \<open>The fenced code blocks of a text: the matches of the pattern whose group \<open>block\<close>
  is set, as \<open>prepare_input\<close> selects them.\<close>

definition fenced_blocks :: "ustring \<Rightarrow> rmatch list" where
  "fenced_blocks text =
     filter (\<lambda>b. group b ''block'' \<noteq> None \<and> group b ''block'' \<noteq> Some [])
       (re_finditer FORMATTED_CODE_REGEX text text)"

section \<open>Concrete inputs\<close>

text \<open>The constants, contexts, worlds and rounds at which the theorems are instantiated.\<close>

definition K0 :: constants where
  "K0 = \<lparr>roles_helpers = 1, categories_help_in_use = 2, channels_bot_commands = 3,
          signal_name = (\<lambda>n. None)\<rparr>"

definition ctx0 :: eval_context where
  "ctx0 = \<lparr>author_id = 7, author_mention = ustr ''<@7>'', author_roles = [1], channel_id = 3,
            channel_category_id = None\<rparr>"

definition ps0 :: paste_service where
  "ps0 = \<lparr>paste_reply = (\<lambda>t. Some (ustr ''https://paste/1'')), paste_received = []\<rparr>"

definition busy_world :: world where
  "busy_world = \<lparr>jobs = [7 \<mapsto> 100], paste = ps0, effects = []\<rparr>"

definition idle_world :: world where
  "idle_world = \<lparr>jobs = Map.empty, paste = ps0, effects = []\<rparr>"

definition env_timeout :: round_env where
  "env_timeout = \<lparr>now = 100,
     post_eval_result = Inr \<lparr>stdout = ustr ''2'' @ [nl], returncode = Some 0\<rparr>,
     filter_cog = None, edit = None, add_reaction_raises = None, reaction = False,
     invokes_command = False, clear_reaction_raises = None, delete_raises = None\<rparr>"

definition env_transport_failure :: round_env where
  "env_transport_failure = env_timeout\<lparr>post_eval_result := Inl ClientError\<rparr>"

definition env_empty_edit :: round_env where
  "env_empty_edit = env_timeout\<lparr>edit := Some (ustr ''!e ``` ```''), reaction := True,
     invokes_command := True\<rparr>"

section \<open>Facts about stripping\<close>

lemma str_rstrip_Nil_iff: "str_rstrip s = [] \<longleftrightarrow> (\<forall>c\<in>set s. isspace c)"
  by (simp add: str_rstrip_def dropWhile_eq_Nil_conv)

lemma str_strip_Nil_iff: "str_strip s = [] \<longleftrightarrow> (\<forall>c\<in>set s. isspace c)"
proof
  assume "str_strip s = []"
  then have "\<forall>c\<in>set (dropWhile isspace s). isspace c"
    by (simp add: str_strip_def str_lstrip_def str_rstrip_Nil_iff)
  then have "dropWhile isspace s = []"
    by (metis hd_dropWhile list.set_sel(1))
  then show "\<forall>c\<in>set s. isspace c"
    by simp
next
  assume "\<forall>c\<in>set s. isspace c"
  then show "str_strip s = []"
    by (auto simp add: str_strip_def str_lstrip_def str_rstrip_def dest: set_dropWhileD)
qed

section \<open>The status emoji\<close>

text \<open>
  Claim C6, as the code has it. For a result whose return code is absent, and for a result
  whose return code is 255, the status emoji is \<open>:x:\<close> exactly when the standard output
  holds a character that is not white space; when the standard output is blank (empty or
  white space only) the emoji is \<open>:warning:\<close>, whatever the return code.
\<close>

theorem get_status_emoji_failed:
  assumes "returncode res = None \<or> returncode res = Some 255"
  shows "get_status_emoji res =
           (if \<exists>c\<in>set (stdout res). \<not> isspace c then ustr '':x:'' else ustr '':warning:'')"
  using assms by (auto simp add: get_status_emoji_def str_strip_Nil_iff)

theorem get_status_emoji_failed_witness:
  "get_status_emoji \<lparr>stdout = ustr ''Traceback'', returncode = Some 255\<rparr> = ustr '':x:''
   \<and> get_status_emoji \<lparr>stdout = ustr '' '', returncode = None\<rparr> = ustr '':warning:''"
  using get_status_emoji_failed [of "\<lparr>stdout = ustr ''Traceback'', returncode = Some 255\<rparr>"]
        get_status_emoji_failed [of "\<lparr>stdout = ustr '' '', returncode = None\<rparr>"]
  by (simp add: ustr_def isspace_def)

text \<open>
  Claim C6 as the specification words it, that the emoji is \<open>:x:\<close> regardless of the
  standard output, fails on an empty standard output, for both return codes.
\<close>

theorem get_status_emoji_blank_counterexample:
  "get_status_emoji \<lparr>stdout = [], returncode = None\<rparr> \<noteq> ustr '':x:''
   \<and> get_status_emoji \<lparr>stdout = [], returncode = Some 255\<rparr> \<noteq> ustr '':x:''"
  by (simp add: get_status_emoji_def str_strip_def str_lstrip_def str_rstrip_def ustr_def)

section \<open>Facts about the matcher\<close>

lemmas rmatch_simps = rmatch.simps(1-7) rmatch.simps(9-11)

lemma rmatch_Seq: "rmatch subj (Seq a b) st = concat (map (rmatch subj b) (rmatch subj a st))"
  by (cases st) (simp add: rmatch_simps)

lemma rmatch_Alt: "rmatch subj (Alt a b) st = rmatch subj a st @ rmatch subj b st"
  by (cases st) (simp add: rmatch_simps)

lemma rmatch_Eps: "rmatch subj Eps st = [st]"
  by (cases st) (simp add: rmatch_simps)

lemma in_rmatch_Seq:
  "x \<in> set (rmatch subj (Seq a b) st) \<longleftrightarrow> (\<exists>m\<in>set (rmatch subj a st). x \<in> set (rmatch subj b m))"
  by (auto simp add: rmatch_Seq)

lemma in_rmatch_Star:
  "x \<in> set (rmatch subj (Star greedy r) (s, g)) \<longleftrightarrow>
     x = (s, g) \<or> (\<exists>m\<in>set (rmatch subj r (s, g)). length (fst m) < length s
                      \<and> x \<in> set (rmatch subj (Star greedy r) m))"
  by (subst rmatch.simps(8)) (auto simp add: Let_def)

text \<open>A match reads a prefix of the text and adds groups in front of those it found.\<close>

lemma rmatch_extends:
  "x \<in> set (rmatch subj r st) \<Longrightarrow>
     (\<exists>p. fst st = p @ fst x) \<and> (\<exists>new. snd x = new @ snd st)"
proof (induction subj r st arbitrary: x rule: rmatch.induct)
  case (1 subj c s g)
  then show ?case by (auto simp add: rmatch_simps split: list.splits if_splits)
next
  case (2 subj P s g)
  then show ?case by (auto simp add: rmatch_simps split: list.splits if_splits)
next
  case (3 subj s g)
  then show ?case by (simp add: rmatch_simps)
next
  case (4 subj s g)
  then show ?case by (simp add: rmatch_simps split: if_splits)
next
  case (5 subj s g)
  then show ?case by (simp add: rmatch_simps split: if_splits)
next
  case (6 subj a b s g)
  from "6.prems" obtain m where m: "m \<in> set (rmatch subj a (s, g))" and x: "x \<in> set (rmatch subj b m)"
    by (auto simp add: in_rmatch_Seq)
  from "6.IH"(1) [OF m] "6.IH"(2) [OF m x] show ?case
    by auto
next
  case (7 subj a b s g)
  from "7.prems" have "x \<in> set (rmatch subj a (s, g)) \<or> x \<in> set (rmatch subj b (s, g))"
    by (simp add: rmatch_Alt)
  with "7.IH" show ?case
    by blast
next
  case (8 subj greedy r s g)
  show ?case
  proof (cases "x = (s, g)")
    case True
    then show ?thesis by simp
  next
    case False
    with "8.prems" obtain m where m: "m \<in> set (rmatch subj r (s, g))"
      and l: "length (fst m) < length s" and x: "x \<in> set (rmatch subj (Star greedy r) m)"
      by (auto simp add: in_rmatch_Star)
    from m l have mf: "m \<in> set (filter (\<lambda>st. length (fst st) < length s) (rmatch subj r (s, g)))"
      by simp
    from "8.IH"(1) [OF m] "8.IH"(2) [OF mf x] show ?thesis
      by auto
  qed
next
  case (9 subj name r s g)
  from "9.prems" obtain s' g' where m: "(s', g') \<in> set (rmatch subj r (s, g))"
    and x: "x = (s', (name, take (length s - length s') s) # g')"
    by (auto simp add: rmatch_simps)
  from "9.IH" [OF m] x show ?case
    by auto
next
  case (10 subj name s g)
  then show ?case
    by (auto simp add: rmatch_simps startswith_def split: option.splits if_splits)
       (metis append_take_drop_id)
next
  case (11 subj name r s g)
  then show ?case
    by (auto simp add: rmatch_simps split: option.splits)
qed

section \<open>The job registry during a session\<close>

lemma effects_emit [simp]: "effects (emit e w) = effects w @ [(e, jobs w)]"
  and jobs_emit [simp]: "jobs (emit e w) = jobs w"
  and paste_emit [simp]: "paste (emit e w) = paste w"
  by (simp_all add: emit_def)

lemma grows_refl: "grows P w w"
  by (simp add: grows_def)

lemma grows_emit: "grows P w w' \<Longrightarrow> P e \<Longrightarrow> grows P w (emit e w')"
  by (auto simp add: grows_def)

lemma grows_paste: "grows P w w' \<Longrightarrow> grows P w (w'\<lparr>paste := p\<rparr>)"
  by (auto simp add: grows_def)

lemma grows_emit_left: "grows P (emit e w) w' \<Longrightarrow> P e \<Longrightarrow> grows P w w'"
  by (auto simp add: grows_def)

lemma send_eval_grows:
  "send_eval K env ctx code args ff w = (r, w') \<Longrightarrow> grows (\<lambda>e. \<not> is_reeval_wait e) w w'"
  unfolding send_eval_def
  by (auto simp add: Let_def is_reeval_wait_def
      split: sum.splits prod.splits option.splits if_splits
      intro!: grows_emit grows_paste grows_refl)

lemma continue_eval_timeout_grows:
  "continue_eval_timeout env w = (r, w') \<Longrightarrow> grows (\<lambda>e. \<not> is_request e) w w'"
  unfolding continue_eval_timeout_def clear_reaction_def
  by (auto split: option.splits if_splits intro!: grows_emit grows_refl)

lemma continue_eval_grows:
  assumes "continue_eval env ctx response w = (r, w')"
  shows "grows (\<lambda>e. \<not> is_request e) w w'"
  using assms unfolding continue_eval_def clear_reaction_def
  by (auto simp add: Let_def split: option.splits if_splits sum.splits
      dest!: continue_eval_timeout_grows grows_emit_left intro!: grows_emit grows_refl)

lemma del_job_effects: "del_job u w = (r, w') \<Longrightarrow> effects w' = effects w
    \<and> jobs w' = (jobs w)(u := None)"
  by (auto simp add: del_job_def split: option.splits)

lemma settled_append: "settled u (xs @ ys) \<longleftrightarrow> settled u xs \<and> settled u ys"
  by (auto simp add: settled_def)

lemma attempt_releases:
  assumes "attempt K env ctx code args ff w = (r, w')"
  shows "jobs w' = (jobs w)(author_id ctx := None)
    \<and> (\<exists>new. effects w' = effects w @ new \<and> settled (author_id ctx) new)"
proof -
  obtain sent w1 where s: "send_eval K env ctx code args ff
      (w\<lparr>jobs := (jobs w)(author_id ctx \<mapsto> now env)\<rparr>) = (sent, w1)"
    by (cases "send_eval K env ctx code args ff (w\<lparr>jobs := (jobs w)(author_id ctx \<mapsto> now env)\<rparr>)")
  obtain raised w2 where d: "del_job (author_id ctx) w1 = (raised, w2)"
    by (cases "del_job (author_id ctx) w1")
  from assms s d have w': "w' = w2"
    by (auto simp add: attempt_def Let_def split: option.splits)
  from send_eval_grows [OF s] have g: "jobs w1 = (jobs w)(author_id ctx \<mapsto> now env)"
    and e: "\<exists>new. effects w1 = effects w @ new \<and> settled (author_id ctx) new"
    by (auto simp add: grows_def settled_def)
  from del_job_effects [OF d] g e show ?thesis
    unfolding w' by auto
qed

lemma continue_eval_settled:
  assumes "continue_eval env ctx response w = (r, w')" and "jobs w (author_id ctx) = None"
  shows "jobs w' = jobs w \<and> (\<exists>new. effects w' = effects w @ new \<and> settled (author_id ctx) new)"
  using continue_eval_grows [OF assms(1)] assms(2)
  by (auto simp add: grows_def settled_def)

lemma eval_loop_settled:
  "eval_loop K envs ctx code args ff w = Some (r, w') \<Longrightarrow>
     jobs w' = (jobs w)(author_id ctx := None)
     \<and> (\<exists>new. effects w' = effects w @ new \<and> settled (author_id ctx) new)"
proof (induction envs arbitrary: code w)
  case Nil
  then show ?case by simp
next
  case (Cons env envs)
  obtain r1 w1 where a: "attempt K env ctx code args ff w = (r1, w1)"
    by (cases "attempt K env ctx code args ff w")
  note a1 = attempt_releases [OF a]
  show ?case
  proof (cases r1)
    case (Inl e)
    with Cons.prems a have "w' = w1" by simp
    with a1 show ?thesis by simp
  next
    case (Inr response)
    obtain r2 w2 where c: "continue_eval env ctx response w1 = (r2, w2)"
      by (cases "continue_eval env ctx response w1")
    from a1 have "jobs w1 (author_id ctx) = None" by simp
    note c1 = continue_eval_settled [OF c this]
    from a1 c1 have j2: "jobs w2 = (jobs w)(author_id ctx := None)" by simp
    from a1 c1 have e2: "\<exists>new. effects w2 = effects w @ new \<and> settled (author_id ctx) new"
      by (auto simp add: settled_append)
    show ?thesis
    proof (cases "\<exists>code'. r2 = Inr (Some code') \<and> code' \<noteq> []")
      case True
      then obtain code' where r2: "r2 = Inr (Some code')" "code' \<noteq> []" by blast
      with Cons.prems a Inr c have "eval_loop K envs ctx code' args ff w2 = Some (r, w')"
        by simp
      from Cons.IH [OF this] j2 e2 show ?thesis
        by (auto simp add: settled_append)
    next
      case False
      with Cons.prems a Inr c have "w' = w2"
        by (auto split: sum.splits option.splits if_splits)
      with j2 e2 show ?thesis by simp
    qed
  qed
qed

lemma requests_grows:
  "grows (\<lambda>e. \<not> is_request e) w w' \<Longrightarrow> requests w' = requests w"
  by (auto simp add: grows_def requests_def)

lemma attempt_sent:
  "\<exists>w'. attempt K env ctx code args format_fn w =
     (fst (send_eval K env ctx code args format_fn (w\<lparr>jobs := (jobs w)(author_id ctx \<mapsto> now env)\<rparr>)), w')"
proof -
  obtain sent w1 where s: "send_eval K env ctx code args format_fn
      (w\<lparr>jobs := (jobs w)(author_id ctx \<mapsto> now env)\<rparr>) = (sent, w1)"
    by (cases "send_eval K env ctx code args format_fn (w\<lparr>jobs := (jobs w)(author_id ctx \<mapsto> now env)\<rparr>)")
  from send_eval_grows [OF s] have "jobs w1 (author_id ctx) = Some (now env)"
    by (simp add: grows_def)
  with s show ?thesis
    by (simp add: attempt_def del_job_def)
qed

lemma send_eval_raises:
  "post_eval_result env = Inl e \<Longrightarrow> fst (send_eval K env ctx code args format_fn w) = Inl e"
  by (simp add: send_eval_def)

lemma send_eval_returns:
  "post_eval_result env = Inr res \<Longrightarrow> \<exists>response. fst (send_eval K env ctx code args format_fn w) = Inr response"
  by (simp add: send_eval_def Let_def split: prod.splits option.splits)

lemma ev_empty: "prepare_input (ustr ''``` ```'') = Inr []"
  by (simp add: prepare_input_def FORMATTED_CODE_REGEX_def BLANK_LINES_def re_finditer.simps
      rmatch.simps ustr_def backtick_def nl_def group_def isspace_def space_or_tab_def az_ignorecase_def
      any_char_def startswith_def dedent_def whitespace_only_sub_def leading_whitespace_def)

lemma get_code_empty_edit: "get_code env_empty_edit (ustr ''!e ``` ```'') = Some (ustr ''``` ```'')"
  by (simp add: get_code_def env_empty_edit_def env_timeout_def str_split_ws1_def ustr_def
      isspace_def)

lemma continue_eval_no_edit:
  "edit env = None \<Longrightarrow> clear_reaction_raises env = None \<Longrightarrow>
     fst (continue_eval env ctx response w) = Inr None"
  by (simp add: continue_eval_def continue_eval_timeout_def clear_reaction_def)

lemma continue_eval_confirmed:
  "edit env = Some content \<Longrightarrow> add_reaction_raises env = None \<Longrightarrow> reaction env \<Longrightarrow>
   clear_reaction_raises env = None \<Longrightarrow> delete_raises env = None \<Longrightarrow>
   get_code env content = Some text \<Longrightarrow> prepare_input text = Inr c \<Longrightarrow>
     fst (continue_eval env ctx response w) = Inr (Some c)"
  by (simp add: continue_eval_def clear_reaction_def)

text \<open>
  Claim C3. When \<open>run_eval\<close> is called for a user who has an entry in the job registry, it
  returns at once, whatever the world would do next: the only effect is the notice sent to
  the user, no execution request is issued, and the registry is left as it was, with the
  entry of the user in it. The registry is a map from users to start times, so it holds
  at most one entry for a user.
\<close>

theorem run_eval_rejects_running_job:
  assumes "jobs w (author_id ctx) = Some t"
  shows "\<exists>w'. run_eval K envs ctx code format_fn args w = Some (Inr (), w')
           \<and> effects w' = effects w @ [(Send (job_running_notice ctx), jobs w)]
           \<and> requests w' = requests w
           \<and> jobs w' = jobs w
           \<and> jobs w' (author_id ctx) = Some t"
proof -
  let ?w' = "emit (Send (job_running_notice ctx)) w"
  have "run_eval K envs ctx code format_fn args w = Some (Inr (), ?w')"
    using assms by (simp add: run_eval_def)
  moreover have "effects ?w' = effects w @ [(Send (job_running_notice ctx), jobs w)]"
    by simp
  moreover have "requests ?w' = requests w"
    by (simp add: requests_def)
  moreover have "jobs ?w' = jobs w"
    by simp
  moreover have "jobs ?w' (author_id ctx) = Some t"
    using assms by simp
  ultimately show ?thesis
    by blast
qed

theorem run_eval_rejects_running_job_witness:
  "jobs busy_world (author_id ctx0) = Some 100
   \<and> (\<exists>w'. run_eval K0 [] ctx0 (ustr ''print(1)'') format_output None busy_world = Some (Inr (), w')
           \<and> effects w' = effects busy_world @ [(Send (job_running_notice ctx0), jobs busy_world)]
           \<and> requests w' = requests busy_world
           \<and> jobs w' = jobs busy_world
           \<and> jobs w' (author_id ctx0) = Some 100)"
proof -
  have h: "jobs busy_world (author_id ctx0) = Some 100"
    by (simp add: busy_world_def ctx0_def)
  from h run_eval_rejects_running_job [OF h] show ?thesis
    by blast
qed

text \<open>
  Claim C4. An attempt ends with no entry of the user in the registry, whether \<open>send_eval\<close>
  returned or raised. Over a whole run of the loop, whichever way it ends, no entry of the
  user is left; every execution request was issued while the user had an entry, and every
  step of \<open>continue_eval\<close> (the wait for the edit, the reaction, the wait for it, its
  removal, the deletion of the response) happened while the user had none.
\<close>

theorem attempt_releases_registry:
  "jobs (snd (attempt K env ctx code args format_fn w)) (author_id ctx) = None
   \<and> (eval_loop K envs ctx code args format_fn w = Some (r, w') \<longrightarrow>
        jobs w' (author_id ctx) = None
        \<and> (\<exists>new. effects w' = effects w @ new
              \<and> (\<forall>x\<in>set new. (is_reeval_wait (fst x) \<longrightarrow> snd x (author_id ctx) = None)
                            \<and> (is_request (fst x) \<longrightarrow> snd x (author_id ctx) \<noteq> None))))"
proof
  obtain r1 w1 where "attempt K env ctx code args format_fn w = (r1, w1)"
    by (cases "attempt K env ctx code args format_fn w")
  from attempt_releases [OF this] this
  show "jobs (snd (attempt K env ctx code args format_fn w)) (author_id ctx) = None"
    by simp
next
  show "eval_loop K envs ctx code args format_fn w = Some (r, w') \<longrightarrow>
        jobs w' (author_id ctx) = None
        \<and> (\<exists>new. effects w' = effects w @ new
              \<and> (\<forall>x\<in>set new. (is_reeval_wait (fst x) \<longrightarrow> snd x (author_id ctx) = None)
                            \<and> (is_request (fst x) \<longrightarrow> snd x (author_id ctx) \<noteq> None)))"
  proof
    assume "eval_loop K envs ctx code args format_fn w = Some (r, w')"
    from eval_loop_settled [OF this] show "jobs w' (author_id ctx) = None
        \<and> (\<exists>new. effects w' = effects w @ new
              \<and> (\<forall>x\<in>set new. (is_reeval_wait (fst x) \<longrightarrow> snd x (author_id ctx) = None)
                            \<and> (is_request (fst x) \<longrightarrow> snd x (author_id ctx) \<noteq> None)))"
      unfolding settled_def by simp
  qed
qed

theorem attempt_releases_registry_witness:
  "\<exists>w'. eval_loop K0 [env_transport_failure] ctx0 (ustr ''print(2)'') None format_output idle_world
       = Some (Inl ClientError, w')
     \<and> jobs w' (author_id ctx0) = None
     \<and> (\<exists>new. effects w' = effects idle_world @ new
              \<and> (\<forall>x\<in>set new. (is_reeval_wait (fst x) \<longrightarrow> snd x (author_id ctx0) = None)
                            \<and> (is_request (fst x) \<longrightarrow> snd x (author_id ctx0) \<noteq> None)))"
proof -
  have "post_eval_result env_transport_failure = Inl ClientError"
    by (simp add: env_transport_failure_def)
  from send_eval_raises [OF this] attempt_sent
  obtain w' where a: "attempt K0 env_transport_failure ctx0 (ustr ''print(2)'') None format_output
      idle_world = (Inl ClientError, w')"
    by metis
  then have e: "eval_loop K0 [env_transport_failure] ctx0 (ustr ''print(2)'') None format_output
      idle_world = Some (Inl ClientError, w')"
    by simp
  from e attempt_releases_registry [of K0 env_transport_failure ctx0 "ustr ''print(2)''" None
      format_output idle_world "[env_transport_failure]" "Inl ClientError" w']
  show ?thesis
    by blast
qed

text \<open>
  Claim C10. When the attempt of a round has returned and \<open>continue_eval\<close> yields no code
  or the empty string, the loop ends there with a normal return, whatever rounds the world
  still has in store, and the execution requests are those issued before \<open>continue_eval\<close>.
\<close>

theorem eval_loop_stops_without_code:
  assumes "attempt K env ctx code args format_fn w = (Inr response, w1)"
    and "continue_eval env ctx response w1 = (Inr c, w2)"
    and "c = None \<or> c = Some []"
  shows "eval_loop K (env # envs) ctx code args format_fn w = Some (Inr (), w2)
         \<and> requests w2 = requests w1"
proof -
  have "requests w2 = requests w1"
    by (rule requests_grows [OF continue_eval_grows [OF assms(2)]])
  moreover have "eval_loop K (env # envs) ctx code args format_fn w = Some (Inr (), w2)"
    using assms(3) by (auto simp add: assms(1) assms(2))
  ultimately show ?thesis
    by simp
qed

theorem eval_loop_stops_without_code_witness:
  "(\<exists>response w1 w2.
      attempt K0 env_timeout ctx0 (ustr ''print(2)'') None format_output idle_world = (Inr response, w1)
      \<and> continue_eval env_timeout ctx0 response w1 = (Inr None, w2)
      \<and> eval_loop K0 [env_timeout] ctx0 (ustr ''print(2)'') None format_output idle_world
            = Some (Inr (), w2)
      \<and> requests w2 = requests w1)
   \<and> (\<exists>response w1 w2.
      attempt K0 env_empty_edit ctx0 (ustr ''print(2)'') None format_output idle_world = (Inr response, w1)
      \<and> continue_eval env_empty_edit ctx0 response w1 = (Inr (Some []), w2)
      \<and> eval_loop K0 [env_empty_edit, env_timeout] ctx0 (ustr ''print(2)'') None format_output idle_world
            = Some (Inr (), w2)
      \<and> requests w2 = requests w1)"
proof
  have "post_eval_result env_timeout = Inr \<lparr>stdout = ustr ''2'' @ [nl], returncode = Some 0\<rparr>"
    by (simp add: env_timeout_def)
  from send_eval_returns [OF this] attempt_sent
  obtain response w1 where a: "attempt K0 env_timeout ctx0 (ustr ''print(2)'') None format_output
      idle_world = (Inr response, w1)"
    by metis
  obtain w2 where c: "continue_eval env_timeout ctx0 response w1 = (Inr None, w2)"
    using continue_eval_no_edit [of env_timeout ctx0 response w1]
    by (cases "continue_eval env_timeout ctx0 response w1") (simp add: env_timeout_def)
  from a c eval_loop_stops_without_code [OF a c, of "[]"]
  show "\<exists>response w1 w2.
      attempt K0 env_timeout ctx0 (ustr ''print(2)'') None format_output idle_world = (Inr response, w1)
      \<and> continue_eval env_timeout ctx0 response w1 = (Inr None, w2)
      \<and> eval_loop K0 [env_timeout] ctx0 (ustr ''print(2)'') None format_output idle_world
            = Some (Inr (), w2)
      \<and> requests w2 = requests w1"
    by blast
next
  have "post_eval_result env_empty_edit = Inr \<lparr>stdout = ustr ''2'' @ [nl], returncode = Some 0\<rparr>"
    by (simp add: env_empty_edit_def env_timeout_def)
  from send_eval_returns [OF this] attempt_sent
  obtain response w1 where a: "attempt K0 env_empty_edit ctx0 (ustr ''print(2)'') None format_output
      idle_world = (Inr response, w1)"
    by metis
  obtain w2 where c: "continue_eval env_empty_edit ctx0 response w1 = (Inr (Some []), w2)"
    using continue_eval_confirmed [of env_empty_edit "ustr ''!e ``` ```''" "ustr ''``` ```''" "[]"
        ctx0 response w1] get_code_empty_edit ev_empty
    by (cases "continue_eval env_empty_edit ctx0 response w1")
       (simp add: env_empty_edit_def env_timeout_def)
  from a c eval_loop_stops_without_code [OF a c, of "[env_timeout]"]
  show "\<exists>response w1 w2.
      attempt K0 env_empty_edit ctx0 (ustr ''print(2)'') None format_output idle_world = (Inr response, w1)
      \<and> continue_eval env_empty_edit ctx0 response w1 = (Inr (Some []), w2)
      \<and> eval_loop K0 [env_empty_edit, env_timeout] ctx0 (ustr ''print(2)'') None format_output idle_world
            = Some (Inr (), w2)
      \<and> requests w2 = requests w1"
    by blast
qed

section \<open>Extraction never fails\<close>

lemma in_rmatch_SeqE:
  assumes "x \<in> set (rmatch subj (Seq a b) st)"
  obtains m where "m \<in> set (rmatch subj a st)" and "x \<in> set (rmatch subj b m)"
  using assms by (auto simp add: in_rmatch_Seq)

lemma in_rmatch_SeqI:
  "m \<in> set (rmatch subj a st) \<Longrightarrow> x \<in> set (rmatch subj b m) \<Longrightarrow> x \<in> set (rmatch subj (Seq a b) st)"
  by (auto simp add: in_rmatch_Seq)

lemma in_rmatch_Group:
  "x \<in> set (rmatch subj (Group name r) st) \<longleftrightarrow>
     (\<exists>m\<in>set (rmatch subj r st).
        x = (fst m, (name, take (length (fst st) - length (fst m)) (fst st)) # snd m))"
  by (cases st) (force simp add: rmatch_simps)

lemma rmatch_keeps_group:
  assumes "x \<in> set (rmatch subj r st)" and "map_of (snd st) name \<noteq> None"
  shows "map_of (snd x) name \<noteq> None"
proof -
  from rmatch_extends [OF assms(1)] obtain new where "snd x = new @ snd st"
    by blast
  with assms(2) show ?thesis
    by simp
qed

lemma in_rmatch_lazy_any: "([], g) \<in> set (rmatch subj (Star False (Cls any_char)) (s, g))"
proof (induction s)
  case Nil
  then show ?case by (simp add: in_rmatch_Star)
next
  case (Cons c s)
  have "(s, g) \<in> set (rmatch subj (Cls any_char) (c # s, g))"
    by (simp add: rmatch_simps any_char_def)
  with Cons show ?case
    by (subst in_rmatch_Star) force
qed

lemma re_finditer_groups:
  "m \<in> set (re_finditer r subj s) \<Longrightarrow> \<exists>t x. x \<in> set (rmatch subj r (t, [])) \<and> snd m = snd x"
proof (induction r subj s rule: re_finditer.induct)
  case (1 r subj s)
  show ?case
  proof (cases "rmatch subj r (s, [])")
    case Nil
    with "1.prems" "1.IH"(1) show ?thesis
      by (subst (asm) re_finditer.simps) (auto split: list.splits)
  next
    case (Cons st sts)
    show ?thesis
    proof (cases "m = (take (length s - length (fst st)) s, snd st)")
      case True
      with Cons show ?thesis
        by (metis list.set_intros(1) snd_conv)
    next
      case False
      with "1.prems" Cons "1.IH"(2) [OF Cons] "1.IH"(3) [OF Cons] show ?thesis
        by (subst (asm) re_finditer.simps) (auto split: list.splits if_splits)
    qed
  qed
qed

lemma formatted_has_code:
  assumes "x \<in> set (rmatch subj FORMATTED_CODE_REGEX st)"
  shows "map_of (snd x) ''code'' \<noteq> None"
proof -
  from assms obtain m1 where
    "x \<in> set (rmatch subj
       (Seq (IfGroup ''block'' (Opt (Seq (Group ''lang'' (Plus (Cls az_ignorecase))) (Lit nl))))
       (Seq BLANK_LINES
       (Seq (Group ''code'' (Star False (Cls any_char)))
       (Seq (Star True (Cls isspace)) (Backref ''delim''))))) m1)"
    unfolding FORMATTED_CODE_REGEX_def by (rule in_rmatch_SeqE)
  then obtain m2 where
    "x \<in> set (rmatch subj
       (Seq BLANK_LINES
       (Seq (Group ''code'' (Star False (Cls any_char)))
       (Seq (Star True (Cls isspace)) (Backref ''delim'')))) m2)"
    by (rule in_rmatch_SeqE)
  then obtain m3 where
    "x \<in> set (rmatch subj
       (Seq (Group ''code'' (Star False (Cls any_char)))
       (Seq (Star True (Cls isspace)) (Backref ''delim''))) m3)"
    by (rule in_rmatch_SeqE)
  then obtain m4 where
    m4: "m4 \<in> set (rmatch subj (Group ''code'' (Star False (Cls any_char))) m3)"
    and x: "x \<in> set (rmatch subj (Seq (Star True (Cls isspace)) (Backref ''delim'')) m4)"
    by (rule in_rmatch_SeqE)
  from m4 have "map_of (snd m4) ''code'' \<noteq> None"
    by (auto simp add: in_rmatch_Group)
  from rmatch_keeps_group [OF x this] show ?thesis .
qed

lemma raw_has_code:
  assumes "x \<in> set (rmatch subj RAW_CODE_REGEX st)"
  shows "map_of (snd x) ''code'' \<noteq> None"
proof -
  from assms obtain m1 where
    "x \<in> set (rmatch subj
       (Seq BLANK_LINES
       (Seq (Group ''code'' (Star False (Cls any_char)))
       (Seq (Star True (Cls isspace)) Eol))) m1)"
    unfolding RAW_CODE_REGEX_def by (rule in_rmatch_SeqE)
  then obtain m3 where
    "x \<in> set (rmatch subj
       (Seq (Group ''code'' (Star False (Cls any_char)))
       (Seq (Star True (Cls isspace)) Eol)) m3)"
    by (rule in_rmatch_SeqE)
  then obtain m4 where
    m4: "m4 \<in> set (rmatch subj (Group ''code'' (Star False (Cls any_char))) m3)"
    and x: "x \<in> set (rmatch subj (Seq (Star True (Cls isspace)) Eol) m4)"
    by (rule in_rmatch_SeqE)
  from m4 have "map_of (snd m4) ''code'' \<noteq> None"
    by (auto simp add: in_rmatch_Group)
  from rmatch_keeps_group [OF x this] show ?thesis .
qed

lemma raw_matches_all:
  "\<exists>g. ([], g) \<in> set (rmatch subj RAW_CODE_REGEX (subj, []))"
proof -
  have 1: "(subj, []) \<in> set (rmatch subj Bol (subj, []))"
    by (simp add: rmatch_simps)
  have 2: "(subj, []) \<in> set (rmatch subj BLANK_LINES (subj, []))"
    by (simp add: BLANK_LINES_def in_rmatch_Star)
  have 3: "([], [(''code'', subj)]) \<in> set (rmatch subj (Group ''code'' (Star False (Cls any_char))) (subj, []))"
    using in_rmatch_lazy_any [of "[]" subj subj] by (force simp add: in_rmatch_Group)
  have 4: "([], [(''code'', subj)]) \<in> set (rmatch subj (Star True (Cls isspace)) ([], [(''code'', subj)]))"
    by (simp add: in_rmatch_Star)
  have 5: "([], [(''code'', subj)]) \<in> set (rmatch subj Eol ([], [(''code'', subj)]))"
    by (simp add: rmatch_simps)
  have "([], [(''code'', subj)]) \<in> set (rmatch subj RAW_CODE_REGEX (subj, []))"
    unfolding RAW_CODE_REGEX_def
    by (rule in_rmatch_SeqI [OF 1], rule in_rmatch_SeqI [OF 2], rule in_rmatch_SeqI [OF 3],
        rule in_rmatch_SeqI [OF 4], rule 5)
  then show ?thesis ..
qed

lemma raw_fullmatch_succeeds:
  "\<exists>g c. re_fullmatch RAW_CODE_REGEX code = Some (code, g) \<and> map_of g ''code'' = Some c"
proof -
  from raw_matches_all [of code] have "\<exists>x\<in>set (rmatch code RAW_CODE_REGEX (code, [])). fst x = []"
    by force
  then obtain x where f: "List.find (\<lambda>st. fst st = []) (rmatch code RAW_CODE_REGEX (code, [])) = Some x"
    by (cases "List.find (\<lambda>st. fst st = []) (rmatch code RAW_CODE_REGEX (code, []))")
       (auto simp add: find_None_iff)
  then have "x \<in> set (rmatch code RAW_CODE_REGEX (code, []))"
    by (auto simp add: find_Some_iff)
  from raw_has_code [OF this] f show ?thesis
    by (cases x) (auto simp add: re_fullmatch_def)
qed

lemma finditer_has_code:
  assumes "m \<in> set (re_finditer FORMATTED_CODE_REGEX subj s)"
  shows "\<exists>c. group m ''code'' = Some c"
proof -
  from re_finditer_groups [OF assms] obtain t x
    where "x \<in> set (rmatch subj FORMATTED_CODE_REGEX (t, []))" and "snd m = snd x"
    by blast
  with formatted_has_code [of x subj "(t, [])"] show ?thesis
    by (auto simp add: group_def)
qed

lemma those_map_Some:
  "(\<forall>x\<in>set xs. \<exists>c. f x = Some c) \<Longrightarrow> \<exists>cs. those (map f xs) = Some cs \<and> map f xs = map Some cs"
proof (induction xs)
  case Nil
  then show ?case by simp
next
  case (Cons x xs)
  then obtain cs c where "those (map f xs) = Some cs" "map f xs = map Some cs" "f x = Some c"
    by auto
  then show ?case
    by (intro exI [of _ "c # cs"]) simp
qed

lemma prepare_input_unformatted:
  assumes "re_finditer FORMATTED_CODE_REGEX code code = []"
    and "re_fullmatch RAW_CODE_REGEX code = Some m" and "group m ''code'' = Some c"
  shows "prepare_input code = Inr (dedent c)"
  unfolding prepare_input_def using assms by simp

lemma prepare_input_several:
  assumes "1 < length (fenced_blocks code)"
    and "those (map (\<lambda>b. group b ''code'') (fenced_blocks code)) = Some cs"
  shows "prepare_input code = Inr (dedent (str_join [nl] cs))"
proof (cases "re_finditer FORMATTED_CODE_REGEX code code")
  case Nil
  with assms(1) show ?thesis
    by (simp add: fenced_blocks_def)
next
  case (Cons m0 ms)
  have "prepare_input code =
     (let blocks = fenced_blocks code
      in if length blocks > 1 then
           (case those (map (\<lambda>b. group b ''code'') blocks) of
              None \<Rightarrow> Inl TypeError
            | Some cs \<Rightarrow> Inr (dedent (str_join [nl] cs)))
         else
           (let m = (case blocks of [] \<Rightarrow> m0 | b # bs \<Rightarrow> b)
            in case group m ''code'' of None \<Rightarrow> Inl TypeError | Some c \<Rightarrow> Inr (dedent c)))"
    unfolding prepare_input_def fenced_blocks_def Cons list.case ..
  with assms show ?thesis
    by (simp only: Let_def if_True option.case)
qed

lemma prepare_input_single:
  assumes "re_finditer FORMATTED_CODE_REGEX code code = m0 # ms"
    and "\<not> 1 < length (fenced_blocks code)"
    and "group (case fenced_blocks code of [] \<Rightarrow> m0 | b # bs \<Rightarrow> b) ''code'' = Some c"
  shows "prepare_input code = Inr (dedent c)"
proof -
  have "prepare_input code =
     (let blocks = fenced_blocks code
      in if length blocks > 1 then
           (case those (map (\<lambda>b. group b ''code'') blocks) of
              None \<Rightarrow> Inl TypeError
            | Some cs \<Rightarrow> Inr (dedent (str_join [nl] cs)))
         else
           (let m = (case blocks of [] \<Rightarrow> m0 | b # bs \<Rightarrow> b)
            in case group m ''code'' of None \<Rightarrow> Inl TypeError | Some c \<Rightarrow> Inr (dedent c)))"
    unfolding prepare_input_def fenced_blocks_def assms(1) list.case ..
  with assms(2,3) show ?thesis
    by (simp only: Let_def if_False option.case)
qed

lemma fenced_blocks_have_code:
  "\<forall>b\<in>set (fenced_blocks code). \<exists>c. group b ''code'' = Some c"
  using finditer_has_code [of _ code code] by (simp add: fenced_blocks_def)

subsection \<open>Evaluation on concrete texts\<close>

lemmas eval_rx = rmatch.simps re_finditer.simps FORMATTED_CODE_REGEX_def RAW_CODE_REGEX_def
  BLANK_LINES_def re_fullmatch_def group_def isspace_def space_or_tab_def az_ignorecase_def
  any_char_def startswith_def ustr_def backtick_def nl_def

lemmas eval_dedent = dedent_def whitespace_only_sub_def leading_whitespace_def common_prefix_def

lemma ev_indented_blocks:
  "map (\<lambda>b. group b ''code'') (fenced_blocks (ustr ''``` a``` ``` b```''))
     = [Some (ustr '' a''), Some (ustr '' b'')]"
  by (simp add: fenced_blocks_def eval_rx)

lemma ev_indented_result:
  "prepare_input (ustr ''``` a``` ``` b```'') = Inr (ustr ''a'' @ [nl] @ ustr ''b'')"
  by (simp add: prepare_input_def eval_rx eval_dedent)

lemma ev_mixed_blocks:
  "map (\<lambda>b. group b ''code'') (fenced_blocks (ustr ''`x` ```a``` and ```b```''))
     = [Some (ustr ''a''), Some (ustr ''b'')]"
  by (simp add: fenced_blocks_def eval_rx)

lemma ev_raw: "prepare_input (ustr ''`a'') = Inr (ustr ''`a'')"
  by (simp add: prepare_input_def eval_rx eval_dedent)

text \<open>
  Claim C9. \<open>prepare_input\<close> returns a string for every text, the empty one, blank ones
  and those with unbalanced back-ticks included: no branch raises. In particular
  \<open>RAW_CODE_REGEX.fullmatch\<close> matches every text, with its group \<open>code\<close> set.
\<close>

theorem prepare_input_total:
  "(\<exists>c. prepare_input code = Inr c)
   \<and> (\<exists>m c. re_fullmatch RAW_CODE_REGEX code = Some m \<and> group m ''code'' = Some c)"
proof
  from raw_fullmatch_succeeds [of code]
  obtain g c where r: "re_fullmatch RAW_CODE_REGEX code = Some (code, g)" "group (code, g) ''code'' = Some c"
    by (auto simp add: group_def)
  then show "\<exists>m c. re_fullmatch RAW_CODE_REGEX code = Some m \<and> group m ''code'' = Some c"
    by blast
  show "\<exists>c. prepare_input code = Inr c"
  proof (cases "re_finditer FORMATTED_CODE_REGEX code code")
    case Nil
    from prepare_input_unformatted [OF Nil r] show ?thesis ..
  next
    case (Cons m0 ms)
    show ?thesis
    proof (cases "1 < length (fenced_blocks code)")
      case True
      from those_map_Some [OF fenced_blocks_have_code [of code]] obtain cs
        where "those (map (\<lambda>b. group b ''code'') (fenced_blocks code)) = Some cs"
        by blast
      from prepare_input_several [OF True this] show ?thesis ..
    next
      case False
      let ?m = "case fenced_blocks code of [] \<Rightarrow> m0 | b # bs \<Rightarrow> b"
      have "?m \<in> set (re_finditer FORMATTED_CODE_REGEX code code)"
      proof (cases "fenced_blocks code")
        case Nil
        with Cons show ?thesis by simp
      next
        case (Cons b bs)
        then have "b \<in> set (fenced_blocks code)"
          by simp
        then have "b \<in> set (re_finditer FORMATTED_CODE_REGEX code code)"
          by (simp add: fenced_blocks_def)
        with Cons show ?thesis
          by simp
      qed
      from finditer_has_code [OF this] obtain c where "group ?m ''code'' = Some c" ..
      from prepare_input_single [OF Cons False this] show ?thesis ..
    qed
  qed
qed

theorem prepare_input_total_witness:
  "prepare_input (ustr ''`a'') = Inr (ustr ''`a'')
   \<and> (\<exists>m c. re_fullmatch RAW_CODE_REGEX (ustr ''`a'') = Some m \<and> group m ''code'' = Some c)"
  using prepare_input_total [of "ustr ''`a''"] by (simp add: ev_raw)

text \<open>
  Claim C5, as the code has it. When the pattern finds two or more fenced blocks in a
  text, \<open>prepare_input\<close> returns \<open>textwrap.dedent\<close> of the contents of the group \<open>code\<close>
  of these blocks, joined by one newline; the matches that are not fenced blocks, and the
  text outside the matches, have no part in the result.
\<close>

theorem prepare_input_several_blocks:
  assumes "2 \<le> length (fenced_blocks content)"
  shows "\<exists>cs. map (\<lambda>b. group b ''code'') (fenced_blocks content) = map Some cs
           \<and> prepare_input content = Inr (dedent (str_join [nl] cs))"
proof -
  from those_map_Some [OF fenced_blocks_have_code [of content]] obtain cs
    where cs: "those (map (\<lambda>b. group b ''code'') (fenced_blocks content)) = Some cs"
      "map (\<lambda>b. group b ''code'') (fenced_blocks content) = map Some cs"
    by blast
  from assms have "1 < length (fenced_blocks content)"
    by simp
  from prepare_input_several [OF this cs(1)] cs(2) show ?thesis
    by blast
qed

theorem prepare_input_several_blocks_witness:
  "map (\<lambda>b. group b ''code'') (fenced_blocks (ustr ''`x` ```a``` and ```b```''))
     = map Some [ustr ''a'', ustr ''b'']
   \<and> prepare_input (ustr ''`x` ```a``` and ```b```'')
     = Inr (dedent (str_join [nl] [ustr ''a'', ustr ''b'']))"
proof -
  have "length (map (\<lambda>b. group b ''code'') (fenced_blocks (ustr ''`x` ```a``` and ```b```''))) = 2"
    unfolding ev_mixed_blocks by simp
  then have "2 \<le> length (fenced_blocks (ustr ''`x` ```a``` and ```b```''))"
    by simp
  from prepare_input_several_blocks [OF this] obtain cs
    where cs: "map (\<lambda>b. group b ''code'') (fenced_blocks (ustr ''`x` ```a``` and ```b```'')) = map Some cs"
      "prepare_input (ustr ''`x` ```a``` and ```b```'') = Inr (dedent (str_join [nl] cs))"
    by blast
  from cs(1) have "map Some cs = map Some [ustr ''a'', ustr ''b'']"
    unfolding ev_mixed_blocks by simp
  then have "cs = [ustr ''a'', ustr ''b'']"
    by (simp only: inj_map_eq_map [OF inj_Some])
  with cs show ?thesis
    by simp
qed

text \<open>
  Claim C5 as the specification words it, that the result is exactly the contents of the
  blocks joined by a newline, fails on two blocks whose code is indented: the contents are
  \<open>" a"\<close> and \<open>" b"\<close>, and the result is \<open>"a\nb"\<close>.
\<close>

theorem prepare_input_exact_join_counterexample:
  "map (\<lambda>b. group b ''code'') (fenced_blocks (ustr ''``` a``` ``` b```''))
     = [Some (ustr '' a''), Some (ustr '' b'')]
   \<and> prepare_input (ustr ''``` a``` ``` b```'') \<noteq> Inr (str_join [nl] [ustr '' a'', ustr '' b''])"
  by (simp add: ev_indented_blocks ev_indented_result) (simp add: ustr_def nl_def)

end
